theory Spec2Isabelle
  imports Main "HOL-Library.Multiset"
begin

section \<open>Strings, runes and bytes\<close>

text \<open>
  The package reads a revision file rune by rune (\<open>bufio.Reader.ReadRune\<close>) into a
  \<open>[]rune\<close> buffer and converts the buffer back with \<open>string(buf)\<close>. A Go string
  holding text (valid UTF-8) is modelled by the list of its runes, a rune by its code
  point. On such strings \<open>ReadRune\<close> delivers the elements of the list one after the
  other, \<open>string(buf)\<close> is the identity, \<open>s == ""\<close> is \<open>s = []\<close> and \<open>+\<close> is \<open>@\<close>.
  Where the code counts bytes (\<open>Revision.Title\<close>) the string is first encoded with
  \<open>utf8\<close>.
\<close>

type_synonym rune = nat
type_synonym gostring = "rune list"
type_synonym byte = nat

abbreviation runes :: "char list \<Rightarrow> gostring" where
  "runes s \<equiv> map of_char s"

abbreviation LF :: rune where "LF \<equiv> 10"
abbreviation star :: rune where "star \<equiv> 42"
abbreviation slash :: rune where "slash \<equiv> 47"
abbreviation colon :: rune where "colon \<equiv> 58"

text \<open>\<open>utf8.EncodeRune\<close>: the bytes of one rune; a surrogate or a value above
  \<open>U+10FFFF\<close> is written as \<open>U+FFFD\<close>.\<close>

definition encodeRune :: "rune \<Rightarrow> byte list" where
  "encodeRune r =
     (if r < 0x80 then [r]
      else if r < 0x800 then [0xC0 + r div 64, 0x80 + r mod 64]
      else if (0xD800 \<le> r \<and> r \<le> 0xDFFF) \<or> 0x10FFFF < r then [0xEF, 0xBF, 0xBD]
      else if r < 0x10000 then
        [0xE0 + r div 4096, 0x80 + (r div 64) mod 64, 0x80 + r mod 64]
      else
        [0xF0 + r div 262144, 0x80 + (r div 4096) mod 64, 0x80 + (r div 64) mod 64,
         0x80 + r mod 64])"

definition utf8 :: "gostring \<Rightarrow> byte list" where
  "utf8 s = concat (map encodeRune s)"

text \<open>\<open>unicode.IsSpace\<close> and \<open>strings.TrimSpace\<close>.\<close>

definition isSpace :: "rune \<Rightarrow> bool" where
  "isSpace r =
     (r = 9 \<or> r = 10 \<or> r = 11 \<or> r = 12 \<or> r = 13 \<or> r = 32 \<or> r = 0x85 \<or> r = 0xA0 \<or>
      r = 0x1680 \<or> (0x2000 \<le> r \<and> r \<le> 0x200A) \<or> r = 0x2028 \<or> r = 0x2029 \<or>
      r = 0x202F \<or> r = 0x205F \<or> r = 0x3000)"

definition TrimSpace :: "gostring \<Rightarrow> gostring" where
  "TrimSpace s = rev (dropWhile isSpace (rev (dropWhile isSpace s)))"

text \<open>The index of the first occurrence of an element, \<open>-1\<close> when there is none: the
  \<open>for i, r := range buf\<close> search of the decoder (with \<open>pos := -1\<close> before it) and
  \<open>bytes.IndexByte\<close>.\<close>

fun indexOf :: "'a \<Rightarrow> 'a list \<Rightarrow> int" where
  "indexOf c [] = - 1"
| "indexOf c (x # xs) =
     (if x = c then 0 else (let i = indexOf c xs in if i < 0 then - 1 else i + 1))"

text \<open>A slice expression \<open>s[lo:hi]\<close>. Go checks the bounds at run time and panics when
  they are out of range; \<open>None\<close> is that panic.\<close>

definition slice :: "'a list \<Rightarrow> int \<Rightarrow> int \<Rightarrow> 'a list option" where
  "slice s lo hi =
     (if 0 \<le> lo \<and> lo \<le> hi \<and> hi \<le> int (length s)
      then Some (take (nat (hi - lo)) (drop (nat lo) s)) else None)"

section \<open>Results\<close>

text \<open>A call either returns or panics with a run-time error of Go.\<close>

datatype panic = NilPointerDereference | SliceBoundsOutOfRange

datatype 'a outcome = Returns 'a | Panics panic

text \<open>The error values of the package. \<open>DriverError\<close> stands for whatever error the
  database driver or the reader hands back; \<open>nil\<close> is \<open>None\<close> of \<open>error option\<close>.\<close>

datatype error =
    ErrInvalid
  | ErrPerformed
  | RevisionError gostring error
  | Errors "error list"
  | DriverError gostring


fun errors_Is :: "error \<Rightarrow> error \<Rightarrow> bool" where
  "errors_Is (RevisionError i e) target =
     (RevisionError i e = target \<or> errors_Is e target)"
| "errors_Is e target = (e = target)"

text \<open>\<open>Errors.err\<close>\<close>

definition err :: "error list \<Rightarrow> error option" where
  "err e = (if length e = 0 then None else Some (Errors e))"

section \<open>Revisions and their identifiers\<close>

record Revision =
  ID :: gostring
  Author :: gostring
  Comment :: gostring
  SQL :: gostring
  PerformedAt :: "int option"

text \<open>The zero value \<open>Revision{}\<close>; the zero \<open>time.Time\<close> is \<open>None\<close>.\<close>

definition zeroRevision :: Revision where
  "zeroRevision = \<lparr>ID = [], Author = [], Comment = [], SQL = [], PerformedAt = None\<rparr>"

subsection \<open>\<open>time.Parse(revisionIdFormat, id)\<close>\<close>

text \<open>
  \<open>time.Parse\<close> belongs to the standard library. With the layout \<open>20060102150405\<close> it
  reads, in this order, a year of four digits, a month, a day, an hour, a minute and a
  second of two digits each, checks the ranges, and refuses text that is left over.
  After the seconds it also accepts a fraction (a period or comma and digits) although
  the layout has none. The functions below follow \<open>time/format.go\<close>.
\<close>

record Time =
  year :: int
  month :: int
  day :: int
  hour :: int
  minute :: int
  second :: int

definition isDigit :: "rune \<Rightarrow> bool" where
  "isDigit c = (48 \<le> c \<and> c \<le> 57)"

definition digitVal :: "rune \<Rightarrow> int" where
  "digitVal c = int c - 48"

text \<open>\<open>getnum(s, fixed)\<close>: one or two digits; with \<open>fixed\<close> exactly two.\<close>

fun getnum :: "gostring \<Rightarrow> bool \<Rightarrow> (int \<times> gostring) option" where
  "getnum [] fixed = None"
| "getnum [a] fixed = (if isDigit a \<and> \<not> fixed then Some (digitVal a, []) else None)"
| "getnum (a # b # s) fixed =
     (if \<not> isDigit a then None
      else if \<not> isDigit b then (if fixed then None else Some (digitVal a, b # s))
      else Some (digitVal a * 10 + digitVal b, s))"

text \<open>\<open>atoi\<close> on the four runes of the year, all of them digits.\<close>

definition atoi :: "gostring \<Rightarrow> int" where
  "atoi p = foldl (\<lambda>n c. n * 10 + digitVal c) 0 p"

definition isLeap :: "int \<Rightarrow> bool" where
  "isLeap y = (y mod 4 = 0 \<and> (y mod 100 \<noteq> 0 \<or> y mod 400 = 0))"

definition daysIn :: "int \<Rightarrow> int \<Rightarrow> int" where
  "daysIn m y =
     (if m = 2 then (if isLeap y then 29 else 28)
      else if m = 4 \<or> m = 6 \<or> m = 9 \<or> m = 11 then 30 else 31)"

definition commaOrPeriod :: "rune \<Rightarrow> bool" where
  "commaOrPeriod c = (c = 46 \<or> c = 44)"

text \<open>The fraction after the seconds: taken off when the rest starts with a period or
  comma and a digit.\<close>

definition skipFraction :: "gostring \<Rightarrow> gostring" where
  "skipFraction v =
     (if 2 \<le> length v \<and> commaOrPeriod (v ! 0) \<and> isDigit (v ! 1)
      then dropWhile isDigit (drop 2 v) else v)"

definition parseRevisionId :: "gostring \<Rightarrow> Time option" where
  "parseRevisionId v0 =
     (if length v0 < 4 \<or> \<not> list_all isDigit (take 4 v0) then None
      else
        (let y = atoi (take 4 v0) in
         (case getnum (drop 4 v0) True of
            None \<Rightarrow> None
          | Some (mo, v2) \<Rightarrow>
              (if mo \<le> 0 \<or> 12 < mo then None
               else
                 (case getnum v2 True of
                    None \<Rightarrow> None
                  | Some (d, v3) \<Rightarrow>
                      (case getnum v3 False of
                         None \<Rightarrow> None
                       | Some (h, v4) \<Rightarrow>
                           (if 24 \<le> h then None
                            else
                              (case getnum v4 True of
                                 None \<Rightarrow> None
                               | Some (mi, v5) \<Rightarrow>
                                   (if 60 \<le> mi then None
                                    else
                                      (case getnum v5 True of
                                         None \<Rightarrow> None
                                       | Some (s, v6) \<Rightarrow>
                                           (if 60 \<le> s then None
                                            else if skipFraction v6 \<noteq> [] then None
                                            else if d < 1 \<or> daysIn mo y < d then None
                                            else Some \<lparr>year = y, month = mo, day = d,
                                                   hour = h, minute = mi,
                                                   second = s\<rparr>)))))))))))"

text \<open>\<open>Time.Unix\<close>: the seconds since 1970-01-01 00:00:00 UTC, from the number of days
  of the proleptic Gregorian calendar.\<close>

definition daysFromCivil :: "int \<Rightarrow> int \<Rightarrow> int \<Rightarrow> int" where
  "daysFromCivil y m d =
     (let y1 = (if m \<le> 2 then y - 1 else y);
          era = y1 div 400;
          yoe = y1 - era * 400;
          doy = (153 * (if 2 < m then m - 3 else m + 9) + 2) div 5 + d - 1;
          doe = yoe * 365 + yoe div 4 - yoe div 100 + doy
      in era * 146097 + doe - 719468)"

definition Unix :: "Time \<Rightarrow> int" where
  "Unix t = daysFromCivil (year t) (month t) (day t) * 86400
              + hour t * 3600 + minute t * 60 + second t"

section \<open>The ordered collection\<close>

text \<open>A \<open>*node\<close> is \<open>nil\<close> or points to a node.\<close>

datatype node = nil | Node (val: int) (revision: Revision) (left: node) (right: node)

record Collection =
  len :: int
  root :: node

text \<open>The zero value of \<open>var c Collection\<close>.\<close>

definition emptyCollection :: Collection where
  "emptyCollection = \<lparr>len = 0, root = nil\<rparr>"

fun insertNode :: "node \<Rightarrow> int \<Rightarrow> Revision \<Rightarrow> node" where
  "insertNode nil v r = Node v r nil nil"
| "insertNode (Node nv nr l rt) v r =
     (if v < nv then Node nv nr (insertNode l v r) rt
      else Node nv nr l (insertNode rt v r))"

text \<open>\<open>(*node).walk\<close> with the visitor of \<open>Slice\<close>, which appends to \<open>revs\<close>. The
  method reads \<open>n.left\<close> first, so a nil receiver panics.\<close>

fun walk :: "node \<Rightarrow> Revision list \<Rightarrow> Revision list outcome" where
  "walk nil revs = Panics NilPointerDereference"
| "walk (Node nv nr l rt) revs =
     (case (if l \<noteq> nil then walk l revs else Returns revs) of
        Panics p \<Rightarrow> Panics p
      | Returns revs1 \<Rightarrow>
          (let revs2 = revs1 @ [nr]
           in if rt \<noteq> nil then walk rt revs2 else Returns revs2))"

definition Put :: "Collection \<Rightarrow> Revision \<Rightarrow> error option \<times> Collection" where
  "Put c r =
     (if ID r = [] then (Some ErrInvalid, c)
      else case parseRevisionId (ID r) of
        None \<Rightarrow> (Some ErrInvalid, c)
      | Some t \<Rightarrow> (None, c\<lparr>root := insertNode (root c) (Unix t) r, len := len c + 1\<rparr>))"

definition Len :: "Collection \<Rightarrow> int" where
  "Len c = len c"

definition Slice :: "Collection \<Rightarrow> Revision list outcome" where
  "Slice c = walk (root c) []"

section \<open>The revision entity\<close>

text \<open>\<open>Revision.Title\<close>. \<open>len\<close>, the slices and \<open>bytes.IndexByte\<close> count bytes; the
  result is a byte string.\<close>

definition Title :: "Revision \<Rightarrow> byte list" where
  "Title r =
     (let title = utf8 (Comment r); l = int (length title)
      in if 72 \<le> l then
           (let title1 = take 72 title;
                title2 = (if 72 < l then title1 @ utf8 (runes ''...'') else title1);
                i = indexOf LF title2
            in if 0 < i then take (nat i) title2 else title2)
         else title)"

text \<open>\<open>Revision.String\<close>\<close>

definition String :: "Revision \<Rightarrow> gostring" where
  "String r =
     runes ''/*'' @ [LF]
     @ (runes ''Revision: '' @ ID r @ [LF])
     @ (runes ''Author:   '' @ Author r @ [LF])
     @ (if Comment r \<noteq> [] then [LF] @ Comment r @ [LF] else [])
     @ (runes ''*/'' @ [LF, LF])
     @ SQL r"

section \<open>The revision codec\<close>

text \<open>
  The loop of \<open>UnmarshalRevision\<close>. The reader is the list of the runes not read yet,
  and \<open>eof\<close> is the error it returns at its end: \<open>None\<close> for \<open>io.EOF\<close>, \<open>Some e\<close> for any
  other error. The variables of the loop are \<open>buf\<close>, \<open>r0\<close>, \<open>inBlock\<close> and \<open>rev\<close>
  (written \<open>rv\<close>, as \<open>rev\<close> is list reversal here).
  The branches are those of the source, in its order:
  \<^item> \<open>*\<close> after \<open>/\<close> opens the block;
  \<^item> \<open>/\<close> after \<open>*\<close> closes it and stores the comment;
  \<^item> a line feed inside the block looks for the first \<open>:\<close> in the buffer and compares
    the 6 and the 8 runes before it with \<open>Author\<close> and \<open>Revision\<close>; the slice
    expressions \<open>buf[pos-6:pos]\<close> and \<open>buf[pos-8:pos]\<close> panic when out of range;
  \<^item> \<open>*\<close> reads one rune ahead, and puts it back only when it is \<open>/\<close>;
  \<^item> label \<open>cont\<close>: the rune is appended to the buffer and becomes \<open>r0\<close>.
\<close>

fun unmarshalLoop ::
  "error option \<Rightarrow> gostring \<Rightarrow> rune list \<Rightarrow> rune \<Rightarrow> bool \<Rightarrow> Revision
     \<Rightarrow> (error + Revision) outcome" where
  "unmarshalLoop eof [] buf r0 inBlock rv =
     (case eof of
        Some e \<Rightarrow> Returns (Inl e)
      | None \<Rightarrow> Returns (Inr (rv\<lparr>SQL := TrimSpace buf\<rparr>)))"
| "unmarshalLoop eof (r # rs) buf r0 inBlock rv =
     (if r = star \<and> r0 = slash then unmarshalLoop eof rs buf r0 True rv
      else if r = slash \<and> r0 = star then
        unmarshalLoop eof rs [] r0 False (rv\<lparr>Comment := TrimSpace buf\<rparr>)
      else if inBlock \<and> r = LF then
        (if r0 = LF then unmarshalLoop eof rs [] r0 inBlock rv
         else
           (let pos = indexOf colon buf in
            if pos < 0 then unmarshalLoop eof rs (buf @ [r]) r inBlock rv
            else
              (case slice buf (pos - 6) pos of
                 None \<Rightarrow> Panics SliceBoundsOutOfRange
               | Some a \<Rightarrow>
                   (if a = runes ''Author'' then
                      (case slice buf (pos + 1) (int (length buf)) of
                         None \<Rightarrow> Panics SliceBoundsOutOfRange
                       | Some v \<Rightarrow>
                           unmarshalLoop eof rs [] r0 inBlock (rv\<lparr>Author := TrimSpace v\<rparr>))
                    else
                      (case slice buf (pos - 8) pos of
                         None \<Rightarrow> Panics SliceBoundsOutOfRange
                       | Some b \<Rightarrow>
                           (if b = runes ''Revision'' then
                              (case slice buf (pos + 1) (int (length buf)) of
                                 None \<Rightarrow> Panics SliceBoundsOutOfRange
                               | Some v \<Rightarrow>
                                   unmarshalLoop eof rs [] r0 inBlock
                                     (rv\<lparr>ID := TrimSpace v\<rparr>))
                            else unmarshalLoop eof rs (buf @ [r]) r inBlock rv))))))
      else if r = star then
        (case rs of
           [] \<Rightarrow> unmarshalLoop eof [] buf r0 inBlock rv
         | peek # rs' \<Rightarrow>
             (if peek = slash then unmarshalLoop eof (peek # rs') buf r inBlock rv
              else unmarshalLoop eof rs' (buf @ [r]) r inBlock rv))
      else unmarshalLoop eof rs (buf @ [r]) r inBlock rv)"

text \<open>\<open>UnmarshalRevision\<close> on a reader that delivers the runes of \<open>input\<close> and then
  \<open>eof\<close>; \<open>r0\<close> starts as the zero rune.\<close>

definition UnmarshalReader :: "error option \<Rightarrow> gostring \<Rightarrow> (error + Revision) outcome" where
  "UnmarshalReader eof input =
     (case unmarshalLoop eof input [] 0 False zeroRevision of
        Panics p \<Rightarrow> Panics p
      | Returns (Inl e) \<Rightarrow> Returns (Inl e)
      | Returns (Inr rv) \<Rightarrow>
          (case parseRevisionId (ID rv) of
             None \<Rightarrow> Returns (Inl ErrInvalid)
           | Some t \<Rightarrow> Returns (Inr rv)))"

text \<open>The reader of a file or a string: it ends with \<open>io.EOF\<close>.\<close>

definition UnmarshalRevision :: "gostring \<Rightarrow> (error + Revision) outcome" where
  "UnmarshalRevision input = UnmarshalReader None input"

section \<open>The execution engine\<close>

text \<open>
  The database, the clock and the standard library are outside the package, and
  nothing is assumed about what they do. The state of the database is the list of the
  statements that were handed to \<open>db.Exec\<close> so far, oldest first: with a driver that
  is deterministic and a database that no one else touches, everything the database
  answers is a function of this list. The world of a run gives these functions:
  \<^item> \<open>QueryRow w db q\<close> is what \<open>db.QueryRow(q).Scan(&count)\<close> delivers in state \<open>db\<close>:
    the count, or the message of the driver's error; a query changes nothing;
  \<^item> \<open>ExecError w db q\<close> is the message of the error of \<open>db.Exec(q)\<close> in state \<open>db\<close>,
    if there is one; what the statement does to the tables (also when it fails half
    way) shows only in the later answers;
  \<^item> \<open>Now w db\<close> is the reading of \<open>time.Now().Unix()\<close> in state \<open>db\<close>;
  \<^item> \<open>Quote w s\<close> is \<open>strconv.Quote(s)\<close>, which the verb \<open>%q\<close> of \<open>fmt.Sprintf\<close>
    writes for a string.
\<close>

type_synonym database = "gostring list"

record world =
  QueryRow :: "database \<Rightarrow> gostring \<Rightarrow> gostring + int"
  ExecError :: "database \<Rightarrow> gostring \<Rightarrow> gostring option"
  Now :: "database \<Rightarrow> int"
  Quote :: "gostring \<Rightarrow> gostring"

text \<open>\<open>db.Exec(q)\<close>: the error, and the database afterwards.\<close>

definition Exec :: "world \<Rightarrow> database \<Rightarrow> gostring \<Rightarrow> error option \<times> database" where
  "Exec w db q = (map_option DriverError (ExecError w db q), db @ [q])"

text \<open>The text of the count query of \<open>RevisionPerformed\<close>: the identifier is appended
  as it is, without quotes.\<close>

definition countQuery :: "gostring \<Rightarrow> gostring" where
  "countQuery i = runes ''SELECT COUNT(id) FROM mgrt_revisions WHERE id = '' @ i"

text \<open>The verb \<open>%d\<close>: a number in decimal digits.\<close>

function decimal :: "nat \<Rightarrow> gostring" where
  "decimal n = (if n < 10 then [48 + n] else decimal (n div 10) @ [48 + n mod 10])"
  by pat_completeness auto
termination
  by (relation "measure id") auto

declare decimal.simps [simp del]

definition formatInt :: "int \<Rightarrow> gostring" where
  "formatInt n = (if n < 0 then 45 # decimal (nat (- n)) else decimal (nat n))"

text \<open>The text of the insert of \<open>Perform\<close>: the identifier, the author and the comment
  are written with \<open>%q\<close>, the SQL is pasted between two single quotes (rune 39) with
  \<open>%s\<close>, and the time is written with \<open>%d\<close>.\<close>

definition insertStatement :: "world \<Rightarrow> Revision \<Rightarrow> int \<Rightarrow> gostring" where
  "insertStatement w r t =
     runes ''INSERT INTO mgrt_revisions (id, author, comment, sql, performed_at) VALUES (''
     @ Quote w (ID r) @ runes '', '' @ Quote w (Author r) @ runes '', ''
     @ Quote w (Comment r) @ runes '', '' @ ([39] @ SQL r @ [39]) @ runes '', ''
     @ formatInt t @ runes '')''"

definition RevisionPerformed :: "world \<Rightarrow> database \<Rightarrow> Revision \<Rightarrow> error option" where
  "RevisionPerformed w db rv =
     (case parseRevisionId (ID rv) of
        None \<Rightarrow> Some ErrInvalid
      | Some t \<Rightarrow>
          (case QueryRow w db (countQuery (ID rv)) of
             Inl msg \<Rightarrow> Some (RevisionError (ID rv) (DriverError msg))
           | Inr cnt \<Rightarrow>
               if 0 < cnt then Some (RevisionError (ID rv) ErrPerformed) else None))"

text \<open>\<open>Revision.Perform\<close>. The result is the error and the database afterwards.\<close>

definition Perform :: "world \<Rightarrow> database \<Rightarrow> Revision \<Rightarrow> error option \<times> database" where
  "Perform w db r =
     (if SQL r = [] then (None, db)
      else case RevisionPerformed w db r of
        Some e \<Rightarrow> (Some e, db)
      | None \<Rightarrow>
          (case Exec w db (SQL r) of
             (Some e, db1) \<Rightarrow> (Some e, db1)
           | (None, db1) \<Rightarrow>
               (case Exec w db1 (insertStatement w r (Now w db1)) of
                  (Some e, db2) \<Rightarrow> (Some e, db2)
                | (None, db2) \<Rightarrow> (None, db2))))"

text \<open>The second loop of \<open>PerformRevisions\<close>, over the sorted revisions, with the
  errors collected so far.\<close>

fun performLoop ::
  "world \<Rightarrow> database \<Rightarrow> Revision list \<Rightarrow> error list \<Rightarrow> error option \<times> database" where
  "performLoop w db [] errs = (err errs, db)"
| "performLoop w db (rv # revs) errs =
     (case Perform w db rv of
        (None, db') \<Rightarrow> performLoop w db' revs errs
      | (Some e, db') \<Rightarrow>
          if errors_Is e ErrPerformed then performLoop w db' revs (errs @ [e])
          else (Some e, db'))"

text \<open>The first loop of \<open>PerformRevisions\<close>: \<open>c.Put(rev)\<close> with the error dropped.\<close>

definition putAll :: "Collection \<Rightarrow> Revision list \<Rightarrow> Collection" where
  "putAll c revs0 = foldl (\<lambda>c rv. snd (Put c rv)) c revs0"

definition PerformRevisions ::
  "world \<Rightarrow> database \<Rightarrow> Revision list \<Rightarrow> error option outcome \<times> database" where
  "PerformRevisions w db revs0 =
     (let c = putAll emptyCollection revs0
      in case Slice c of
           Panics p \<Rightarrow> (Panics p, db)
         | Returns revs \<Rightarrow>
             (case performLoop w db revs [] of (e, db') \<Rightarrow> (Returns e, db')))"

section \<open>Example values\<close>

text \<open>
  A database to which nothing was sent yet, and two worlds. In both the driver runs
  every statement, the clock stands still and \<open>%q\<close> puts the string between double
  quotes. In \<open>countingWorld\<close> the count query is answered with the number of inserts
  that were run; in \<open>forgetfulWorld\<close> it is answered with 0, as by a database that does
  not find the recorded row. Then two revisions with the same valid identifier: one
  without SQL and one that creates a table.
\<close>

definition emptyDB :: database where
  "emptyDB = []"

definition countingWorld :: world where
  "countingWorld =
     \<lparr>QueryRow = (\<lambda>db q. Inr (int (length (filter (\<lambda>s. take 11 s = runes ''INSERT INTO'') db)))),
      ExecError = (\<lambda>db q. None),
      Now = (\<lambda>db. 0),
      Quote = (\<lambda>s. [34] @ s @ [34])\<rparr>"

definition forgetfulWorld :: world where
  "forgetfulWorld = countingWorld\<lparr>QueryRow := (\<lambda>db q. Inr 0)\<rparr>"

definition noop :: Revision where
  "noop = \<lparr>ID = runes ''20240101000000'', Author = runes ''a'', Comment = [],
            SQL = [], PerformedAt = None\<rparr>"

definition createX :: Revision where
  "createX = \<lparr>ID = runes ''20240101000000'', Author = runes ''a'', Comment = [],
               SQL = runes ''CREATE TABLE x(id INTEGER);'', PerformedAt = None\<rparr>"

text \<open>A revision whose identifier does not parse, and one with a comment of two short
  lines.\<close>

definition bogus :: Revision where
  "bogus = \<lparr>ID = runes ''bogus'', Author = runes ''a'', Comment = [],
             SQL = runes ''CREATE TABLE y(id INTEGER);'', PerformedAt = None\<rparr>"

definition shortComment :: Revision where
  "shortComment = \<lparr>ID = runes ''20240101000000'', Author = runes ''a'',
     Comment = runes ''ab'' @ [LF] @ runes ''cd'', SQL = [], PerformedAt = None\<rparr>"

text \<open>The revision of the first scenario of the specification, here with a comment
  of two lines and a line feed after the SQL, and one whose comment has two
  paragraphs.\<close>

definition scenario1 :: Revision where
  "scenario1 = \<lparr>ID = runes ''20240115093000'', Author = runes ''A <a@x>'',
     Comment = runes ''hi'' @ [LF] @ runes ''there'',
     SQL = runes ''CREATE TABLE t(id INT);'' @ [LF], PerformedAt = None\<rparr>"

definition twoParagraphs :: Revision where
  "twoParagraphs = \<lparr>ID = runes ''20240115093000'', Author = runes ''A <a@x>'',
     Comment = runes ''a'' @ [LF, LF] @ runes ''b'',
     SQL = runes ''CREATE TABLE t(id INT);'', PerformedAt = None\<rparr>"

section \<open>Notions used in the statements\<close>

text \<open>Two line feeds in a row: an empty line.\<close>

fun doubleLF :: "gostring \<Rightarrow> bool" where
  "doubleLF (a # b # s) = ((a = LF \<and> b = LF) \<or> doubleLF (b # s))"
| "doubleLF s = False"

text \<open>The key of a revision in the collection: the Unix seconds of its parsed
  identifier.\<close>

definition idKey :: "Revision \<Rightarrow> int" where
  "idKey r = (case parseRevisionId (ID r) of None \<Rightarrow> 0 | Some t \<Rightarrow> Unix t)"

text \<open>The nodes of a tree from left to right, each with its \<open>val\<close> and its revision.\<close>

fun inorder :: "node \<Rightarrow> (int \<times> Revision) list" where
  "inorder nil = []"
| "inorder (Node nv nr l rt) = inorder l @ (nv, nr) # inorder rt"

abbreviation keyed :: "Revision list \<Rightarrow> (int \<times> Revision) list" where
  "keyed xs \<equiv> map (\<lambda>r. (idKey r, r)) xs"

text \<open>The metadata block as \<open>Revision.String\<close> writes it, from \<open>/*\<close> to \<open>*/\<close>:
  \<open>String r\<close> is \<open>header r\<close>, two line feeds and the SQL.\<close>

definition header :: "Revision \<Rightarrow> gostring" where
  "header r =
     runes ''/*'' @ [LF]
     @ (runes ''Revision: '' @ ID r @ [LF])
     @ (runes ''Author:   '' @ Author r @ [LF])
     @ (if Comment r \<noteq> [] then [LF] @ Comment r @ [LF] else [])
     @ runes ''*/''"

section \<open>Basic facts\<close>

lemmas parse_defs =
  parseRevisionId_def atoi_def isDigit_def digitVal_def skipFraction_def daysIn_def
  isLeap_def commaOrPeriod_def

lemma indexOf_notin: "c \<notin> set xs \<Longrightarrow> indexOf c xs = - 1"
  by (induction xs) (auto simp: Let_def)

lemma indexOf_first: "c \<notin> set a \<Longrightarrow> indexOf c (a @ c # b) = int (length a)"
  by (induction a) (auto simp: Let_def)

section \<open>Performing a revision\<close>

text \<open>
  Claim C6. A revision with empty SQL is a no-op: in every world and for every
  database \<open>Perform\<close> returns nil and leaves the database as it is, so nothing is
  queried, executed or recorded, whatever the identifier is.
\<close>

theorem Perform_empty_SQL: "SQL r = [] \<Longrightarrow> Perform w db r = (None, db)"
  by (simp add: Perform_def)

theorem Perform_empty_SQL_witness:
  "SQL noop = [] \<and> Perform countingWorld emptyDB noop = (None, emptyDB)"
  using Perform_empty_SQL [of noop countingWorld emptyDB] by (simp add: noop_def)





text \<open>
  The condition on the count is needed. In a world whose database does not find the
  recorded row (as SQLite does not for the identifier 09990101000000, which the query
  names as the number 9990101000000) the second \<open>Perform\<close> returns nil as the first
  one, and the SQL is handed to \<open>db.Exec\<close> twice.
\<close>

lemma Perform_twice_forgetful:
  "fst (Perform forgetfulWorld emptyDB createX) = None \<and>
   fst (Perform forgetfulWorld (snd (Perform forgetfulWorld emptyDB createX)) createX) = None \<and>
   count_list (snd (Perform forgetfulWorld (snd (Perform forgetfulWorld emptyDB createX)) createX))
     (SQL createX) = 2"
  by (simp add: createX_def Perform_def RevisionPerformed_def parse_defs Exec_def
      forgetfulWorld_def countingWorld_def emptyDB_def insertStatement_def)

section \<open>The collection and the batch\<close>

lemma Put_invalid:
  "ID r = [] \<or> parseRevisionId (ID r) = None \<Longrightarrow> Put c r = (Some ErrInvalid, c)"
  by (auto simp: Put_def)

lemma putAll_Nil: "putAll c [] = c"
  by (simp add: putAll_def)

lemma putAll_Cons: "putAll c (r # revs) = putAll (snd (Put c r)) revs"
  by (simp add: putAll_def)

lemma putAll_filter:
  "putAll c revs = putAll c (filter (\<lambda>r. ID r \<noteq> [] \<and> parseRevisionId (ID r) \<noteq> None) revs)"
proof (induction revs arbitrary: c)
  case Nil
  show ?case by simp
next
  case (Cons r revs)
  show ?case
  proof (cases "ID r = [] \<or> parseRevisionId (ID r) = None")
    case True
    then have "snd (Put c r) = c" by (simp add: Put_invalid)
    with True Cons show ?thesis by (auto simp: putAll_Cons)
  next
    case False
    with Cons show ?thesis by (auto simp: putAll_Cons)
  qed
qed

text \<open>
  What \<open>Slice\<close> returns after a sequence of \<open>Put\<close>. \<open>walk\<close> on a node that is not nil
  visits the tree in order; \<open>insertNode\<close> puts a revision behind all entries whose key
  is not greater, so the tree holds the accepted revisions in the order of a stable
  sort by key (\<open>sort_key\<close>), and \<open>len\<close> counts them.
\<close>

lemma inorder_Nil_iff: "inorder n = [] \<longleftrightarrow> n = nil"
  by (cases n) auto

lemma walk_inorder: "n \<noteq> nil \<Longrightarrow> walk n revs = Returns (revs @ map snd (inorder n))"
proof (induction n arbitrary: revs)
  case nil
  then show ?case by simp
next
  case (Node nv nr l rt)
  have l: "(if l \<noteq> nil then walk l revs else Returns revs) = Returns (revs @ map snd (inorder l))"
    using Node.IH(1) [of revs] by (cases "l = nil") auto
  have r: "\<And>revs2. (if rt \<noteq> nil then walk rt revs2 else Returns revs2)
             = Returns (revs2 @ map snd (inorder rt))"
    using Node.IH(2) by (cases "rt = nil") auto
  show ?case by (simp add: l r del: if_not_P)
qed

lemma inorder_insertNode:
  "sorted (map fst (inorder n)) \<Longrightarrow>
   inorder (insertNode n v r)
     = filter (\<lambda>e. fst e \<le> v) (inorder n) @ (v, r) # filter (\<lambda>e. v < fst e) (inorder n)"
proof (induction n)
  case nil
  show ?case by simp
next
  case (Node nv nr l rt)
  from Node.prems have sl: "sorted (map fst (inorder l))" and sr: "sorted (map fst (inorder rt))"
    and lo: "\<forall>e \<in> set (inorder l). fst e \<le> nv" and hi: "\<forall>e \<in> set (inorder rt). nv \<le> fst e"
    by (auto simp: sorted_append)
  show ?case
  proof (cases "v < nv")
    case True
    with hi have "filter (\<lambda>e. fst e \<le> v) (inorder rt) = []"
      "filter (\<lambda>e. v < fst e) (inorder rt) = inorder rt"
      by (auto simp: filter_empty_conv filter_id_conv)
    with True Node.IH(1) [OF sl] show ?thesis by simp
  next
    case False
    with lo have "filter (\<lambda>e. fst e \<le> v) (inorder l) = inorder l"
      "filter (\<lambda>e. v < fst e) (inorder l) = []"
      by (auto simp: filter_empty_conv filter_id_conv)
    with False Node.IH(2) [OF sr] show ?thesis by simp
  qed
qed

lemma insort_key_before:
  "f a \<le> f x \<Longrightarrow> insort_key f a (L @ x # R) = insort_key f a L @ x # R"
  by (induction L) auto

lemma insort_key_after:
  "\<forall>y \<in> set L. f y \<le> f x \<Longrightarrow> f x < f a \<Longrightarrow>
   insort_key f a (L @ x # R) = L @ x # insort_key f a R"
  by (induction L) auto

lemma sort_key_snoc:
  fixes f :: "'a \<Rightarrow> int"
  shows "sort_key f (xs @ [x])
     = filter (\<lambda>y. f y \<le> f x) (sort_key f xs) @ x # filter (\<lambda>y. f x < f y) (sort_key f xs)"
proof (induction xs)
  case Nil
  show ?case by simp
next
  case (Cons a xs)
  let ?S = "sort_key f xs"
  let ?L = "filter (\<lambda>y. f y \<le> f x) ?S" and ?R = "filter (\<lambda>y. f x < f y) ?S"
  have s: "sorted (map f ?S)" by simp
  have step: "sort_key f ((a # xs) @ [x]) = insort_key f a (?L @ x # ?R)"
    using Cons.IH by simp
  show ?case
  proof (cases "f a \<le> f x")
    case True
    then have "filter (\<lambda>y. f y \<le> f x) (insort_key f a ?S) = insort_key f a ?L"
      "filter (\<lambda>y. f x < f y) (insort_key f a ?S) = ?R"
      using s by (simp_all add: filter_insort filter_insort_triv)
    with True step show ?thesis by (simp add: insort_key_before)
  next
    case False
    then have "filter (\<lambda>y. f y \<le> f x) (insort_key f a ?S) = ?L"
      "filter (\<lambda>y. f x < f y) (insort_key f a ?S) = insort_key f a ?R"
      using s by (simp_all add: filter_insort filter_insort_triv)
    moreover have "insort_key f a (?L @ x # ?R) = ?L @ x # insort_key f a ?R"
      using False by (intro insort_key_after) auto
    ultimately show ?thesis using step by simp
  qed
qed

lemma Put_valid:
  assumes "ID r \<noteq> []" "parseRevisionId (ID r) \<noteq> None"
  shows "Put c r = (None, c\<lparr>root := insertNode (root c) (idKey r) r, len := len c + 1\<rparr>)"
  using assms by (auto simp: Put_def idKey_def)

lemma Put_inorder:
  assumes inv: "inorder (root c) = keyed (sort_key idKey xs)"
    and r: "ID r \<noteq> []" "parseRevisionId (ID r) \<noteq> None"
  shows "inorder (root (snd (Put c r))) = keyed (sort_key idKey (xs @ [r]))"
proof -
  let ?S = "sort_key idKey xs"
  have "sorted (map fst (inorder (root c)))"
    by (simp add: inv o_def)
  then have "inorder (insertNode (root c) (idKey r) r)
      = filter (\<lambda>e. fst e \<le> idKey r) (keyed ?S) @ (idKey r, r)
          # filter (\<lambda>e. idKey r < fst e) (keyed ?S)"
    by (simp add: inorder_insertNode inv)
  also have "\<dots> = keyed (filter (\<lambda>y. idKey y \<le> idKey r) ?S @ r
                          # filter (\<lambda>y. idKey r < idKey y) ?S)"
    by (simp add: filter_map o_def)
  also have "\<dots> = keyed (sort_key idKey (xs @ [r]))"
    by (simp only: sort_key_snoc)
  finally show ?thesis using r by (simp add: Put_valid)
qed

lemma putAll_inorder:
  "inorder (root c) = keyed (sort_key idKey xs) \<Longrightarrow> len c = int (length xs) \<Longrightarrow>
   inorder (root (putAll c revs))
     = keyed (sort_key idKey
         (xs @ filter (\<lambda>r. ID r \<noteq> [] \<and> parseRevisionId (ID r) \<noteq> None) revs)) \<and>
   len (putAll c revs)
     = int (length (xs @ filter (\<lambda>r. ID r \<noteq> [] \<and> parseRevisionId (ID r) \<noteq> None) revs))"
proof (induction revs arbitrary: c xs)
  case Nil
  then show ?case by (simp add: putAll_Nil)
next
  case (Cons r revs)
  show ?case
  proof (cases "ID r \<noteq> [] \<and> parseRevisionId (ID r) \<noteq> None")
    case True
    then have a: "inorder (root (snd (Put c r))) = keyed (sort_key idKey (xs @ [r]))"
      using Cons.prems(1) by (simp add: Put_inorder)
    have b: "len (snd (Put c r)) = int (length (xs @ [r]))"
      using True Cons.prems(2) by (simp add: Put_valid)
    from Cons.IH [OF a b] True show ?thesis by (simp add: putAll_Cons)
  next
    case False
    then have "snd (Put c r) = c" by (auto simp: Put_invalid)
    with Cons.IH [OF Cons.prems] False show ?thesis by (auto simp: putAll_Cons)
  qed
qed

lemma Slice_putAll:
  assumes "filter (\<lambda>r. ID r \<noteq> [] \<and> parseRevisionId (ID r) \<noteq> None) revs \<noteq> []"
  shows "Slice (putAll emptyCollection revs)
     = Returns (sort_key idKey (filter (\<lambda>r. ID r \<noteq> [] \<and> parseRevisionId (ID r) \<noteq> None) revs))"
proof -
  let ?V = "filter (\<lambda>r. ID r \<noteq> [] \<and> parseRevisionId (ID r) \<noteq> None) revs"
  have io: "inorder (root (putAll emptyCollection revs)) = keyed (sort_key idKey ?V)"
    using putAll_inorder [of emptyCollection "[]" revs] by (simp add: emptyCollection_def)
  from assms have "length (sort_key idKey ?V) \<noteq> 0" by simp
  then have "sort_key idKey ?V \<noteq> []" by (simp only: length_0_conv not_False_eq_True)
  with io have "inorder (root (putAll emptyCollection revs)) \<noteq> []" by simp
  then have ne: "root (putAll emptyCollection revs) \<noteq> nil"
    by (simp only: inorder_Nil_iff not_False_eq_True)
  have "map snd (keyed (sort_key idKey ?V)) = sort_key idKey ?V"
    by (simp add: o_def)
  with walk_inorder [OF ne, of "[]"] io show ?thesis by (simp add: Slice_def)
qed

lemma Len_putAll:
  "Len (putAll emptyCollection revs)
     = int (length (filter (\<lambda>r. ID r \<noteq> [] \<and> parseRevisionId (ID r) \<noteq> None) revs))"
  using putAll_inorder [of emptyCollection "[]" revs] by (simp add: emptyCollection_def Len_def)

lemma Slice_sorted:
  assumes "revs \<noteq> []" "\<forall>r \<in> set revs. parseRevisionId (ID r) \<noteq> None"
  shows "\<exists>out. Slice (putAll emptyCollection revs) = Returns out \<and> mset out = mset revs \<and>
           sorted (map idKey out) \<and> Len (putAll emptyCollection revs) = int (length revs)"
proof -
  have ne: "\<And>r. parseRevisionId (ID r) \<noteq> None \<Longrightarrow> ID r \<noteq> []"
    by (auto simp: parseRevisionId_def)
  with assms(2) have "filter (\<lambda>r. ID r \<noteq> [] \<and> parseRevisionId (ID r) \<noteq> None) revs = revs"
    by (auto simp: filter_id_conv)
  with assms(1) Slice_putAll [of revs] Len_putAll [of revs] show ?thesis by simp
qed

lemma PerformRevisions_sorted:
  assumes "filter (\<lambda>r. ID r \<noteq> [] \<and> parseRevisionId (ID r) \<noteq> None) revs \<noteq> []"
  shows "PerformRevisions w db revs
     = (case performLoop w db
          (sort_key idKey (filter (\<lambda>r. ID r \<noteq> [] \<and> parseRevisionId (ID r) \<noteq> None) revs)) []
        of (e, db') \<Rightarrow> (Returns e, db'))"
  using Slice_putAll [OF assms] by (simp add: PerformRevisions_def)

text \<open>
  Claim C10. \<open>Put\<close> answers a revision whose identifier is empty or does not parse with
  \<open>ErrInvalid\<close> and leaves the collection as it is; \<open>PerformRevisions\<close> drops that
  answer. So the result of a batch, the returned value and the database afterwards, is
  the result of the batch without these revisions: they are not executed, not
  recorded, and no error stands for them.
\<close>

theorem PerformRevisions_drops_invalid:
  "((ID r = [] \<or> parseRevisionId (ID r) = None) \<longrightarrow> Put c r = (Some ErrInvalid, c)) \<and>
   PerformRevisions w db revs
     = PerformRevisions w db
         (filter (\<lambda>r. ID r \<noteq> [] \<and> parseRevisionId (ID r) \<noteq> None) revs)"
proof -
  have "putAll emptyCollection revs = putAll emptyCollection
         (filter (\<lambda>r. ID r \<noteq> [] \<and> parseRevisionId (ID r) \<noteq> None) revs)"
    by (rule putAll_filter)
  then show ?thesis by (simp add: PerformRevisions_def Put_invalid)
qed

theorem PerformRevisions_drops_invalid_witness:
  "(ID bogus = [] \<or> parseRevisionId (ID bogus) = None) \<and>
   Put emptyCollection bogus = (Some ErrInvalid, emptyCollection) \<and>
   PerformRevisions countingWorld emptyDB [bogus, createX] = PerformRevisions countingWorld emptyDB [createX]"
proof -
  have a: "parseRevisionId (ID bogus) = None" by (simp add: bogus_def parse_defs)
  have b: "parseRevisionId (ID createX) \<noteq> None" by (simp add: createX_def parse_defs)
  have c: "ID createX \<noteq> []" by (simp add: createX_def)
  from a b c
    PerformRevisions_drops_invalid [of bogus emptyCollection countingWorld emptyDB "[bogus, createX]"]
  show ?thesis by simp
qed

text \<open>
  Claim C9. \<open>Slice\<close> on a collection whose root is nil panics, since \<open>walk\<close> reads
  \<open>n.left\<close> of the nil node. So \<open>PerformRevisions\<close> panics, before it touches the
  database, when it is given no revision or only revisions whose identifier is empty
  or does not parse.
\<close>

theorem empty_Collection_panics:
  assumes "root c = nil"
    and "\<forall>r \<in> set revs. ID r = [] \<or> parseRevisionId (ID r) = None"
  shows "Slice c = Panics NilPointerDereference \<and>
         PerformRevisions w db revs = (Panics NilPointerDereference, db)"
proof -
  from assms(2)
  have "filter (\<lambda>r. ID r \<noteq> [] \<and> parseRevisionId (ID r) \<noteq> None) revs = []"
    by (induction revs) auto
  then have "putAll emptyCollection revs = emptyCollection"
    using putAll_filter [of emptyCollection revs] by (simp add: putAll_Nil)
  then have "PerformRevisions w db revs = (Panics NilPointerDereference, db)"
    by (simp add: PerformRevisions_def Slice_def emptyCollection_def)
  moreover from assms(1) have "Slice c = Panics NilPointerDereference"
    by (simp add: Slice_def)
  ultimately show ?thesis by simp
qed

theorem empty_Collection_panics_witness:
  "root emptyCollection = nil \<and> parseRevisionId (ID bogus) = None \<and>
   Slice emptyCollection = Panics NilPointerDereference \<and>
   PerformRevisions countingWorld emptyDB [] = (Panics NilPointerDereference, emptyDB) \<and>
   PerformRevisions countingWorld emptyDB [bogus] = (Panics NilPointerDereference, emptyDB)"
proof -
  have a: "root emptyCollection = nil" by (simp add: emptyCollection_def)
  have b: "parseRevisionId (ID bogus) = None" by (simp add: bogus_def parse_defs)
  from a b empty_Collection_panics [of emptyCollection "[]" countingWorld emptyDB]
    empty_Collection_panics [of emptyCollection "[bogus]" countingWorld emptyDB]
  show ?thesis by simp
qed

text \<open>
  Claim C3 at the batch without revisions: the aggregate would be empty and the claim
  has nil returned, but the call panics in \<open>Slice\<close>. (For a batch with at least one
  identifier that parses the claim holds: by \<open>PerformRevisions_sorted\<close> the call is
  \<open>performLoop\<close> on the accepted revisions sorted by key, which collects the errors
  that wrap \<open>ErrPerformed\<close>, stops at any other error and returns \<open>err\<close> of the
  aggregate.)
\<close>

theorem PerformRevisions_no_revisions:
  "PerformRevisions w db [] = (Panics NilPointerDereference, db)"
  by (simp add: PerformRevisions_def putAll_def Slice_def emptyCollection_def)

text \<open>
  Claim C4 at the empty multiset: after no \<open>Put\<close> at all \<open>Len\<close> is 0, the number of
  successful calls, but \<open>Slice\<close> panics instead of returning the empty slice. (For a
  multiset that is not empty the claim holds, by \<open>Slice_sorted\<close>.)
\<close>

theorem Slice_no_revisions:
  "Slice (putAll emptyCollection []) = Panics NilPointerDereference \<and>
   Len (putAll emptyCollection []) = 0"
  by (simp add: putAll_def Slice_def Len_def emptyCollection_def)

section \<open>The title\<close>

text \<open>The title has at most 75 bytes, and it is the first line of a comment of 72
  bytes or more whose first line feed stands at a byte \<open>i\<close> with \<open>0 < i < 72\<close>.\<close>

lemma indexOf_decomp:
  "0 \<le> indexOf c xs \<Longrightarrow> \<exists>a b. xs = a @ c # b \<and> c \<notin> set a \<and> indexOf c xs = int (length a)"
proof (induction xs)
  case Nil
  then show ?case by simp
next
  case (Cons x xs)
  show ?case
  proof (cases "x = c")
    case True
    then have "x # xs = [] @ c # xs \<and> c \<notin> set [] \<and> indexOf c (x # xs) = int (length ([]::'a list))"
      by simp
    then show ?thesis by blast
  next
    case False
    with Cons.prems have "0 \<le> indexOf c xs" by (simp add: Let_def split: if_splits)
    with Cons.IH obtain a b where ab: "xs = a @ c # b" "c \<notin> set a" "indexOf c xs = int (length a)"
      by blast
    with False have "x # xs = (x # a) @ c # b \<and> c \<notin> set (x # a) \<and>
        indexOf c (x # xs) = int (length (x # a))"
      by (simp add: Let_def)
    then show ?thesis by blast
  qed
qed

lemma Title_length: "length (Title r) \<le> 75"
proof -
  have "length (utf8 (runes ''...'')) = 3" by (simp add: utf8_def encodeRune_def)
  then show ?thesis by (auto simp: Title_def Let_def)
qed

lemma Title_long_comment:
  assumes long: "72 \<le> int (length (utf8 (Comment r)))"
    and i: "indexOf LF (utf8 (Comment r)) = i" "0 < i" "i < 72"
  shows "Title r = take (nat i) (utf8 (Comment r))"
proof -
  let ?t = "utf8 (Comment r)"
  from i obtain a b where ab: "?t = a @ LF # b" "LF \<notin> set a" "i = int (length a)"
    using indexOf_decomp [of LF ?t] by auto
  define dots where "dots = (if 72 < int (length ?t) then utf8 (runes ''...'') else [])"
  define title2 where
    "title2 = (if 72 < int (length ?t) then take 72 ?t @ utf8 (runes ''...'') else take 72 ?t)"
  have T: "Title r = (if 0 < indexOf LF title2 then take (nat (indexOf LF title2)) title2
                      else title2)"
    unfolding Title_def Let_def title2_def using long by (simp only: if_True)
  have t2: "title2 = a @ LF # (take (71 - length a) b @ dots)"
    using ab i by (simp add: title2_def dots_def Suc_diff_le numeral_eq_Suc)
  have j: "indexOf LF title2 = i"
    unfolding t2 using ab by (simp add: indexOf_first)
  have "take (nat i) title2 = take (nat i) ?t"
    unfolding t2 using ab by simp
  with i show ?thesis by (simp add: T j)
qed

text \<open>
  Claim C7 at a comment of five bytes with a line feed at byte 2: the search for the
  line feed stands inside the branch for comments of 72 bytes and more, so \<open>Title\<close>
  returns the whole comment and not its first line. (The rest of the claim holds, by
  \<open>Title_length\<close> and \<open>Title_long_comment\<close>.)
\<close>

theorem Title_short_comment:
  "Title shortComment = utf8 (runes ''ab'' @ [LF] @ runes ''cd'') \<and>
   indexOf LF (utf8 (Comment shortComment)) = 2 \<and>
   Title shortComment \<noteq> take 2 (utf8 (Comment shortComment))"
  by (simp add: Title_def shortComment_def utf8_def encodeRune_def)

section \<open>Decoding\<close>

text \<open>Trimming.\<close>

lemma TrimSpace_Cons: "isSpace c \<Longrightarrow> TrimSpace (c # s) = TrimSpace s"
  by (simp add: TrimSpace_def)

lemma TrimSpace_snoc: "isSpace c \<Longrightarrow> TrimSpace (s @ [c]) = TrimSpace s"
proof (cases "\<forall>x \<in> set s. isSpace x")
  case True
  assume "isSpace c"
  with True have "\<forall>x \<in> set (s @ [c]). isSpace x" by simp
  then have a: "dropWhile isSpace (s @ [c]) = []" by (simp only: dropWhile_eq_Nil_conv)
  from True have b: "dropWhile isSpace s = []" by (simp only: dropWhile_eq_Nil_conv)
  show ?thesis unfolding TrimSpace_def a b ..
next
  case False
  assume "isSpace c"
  from False obtain x where "x \<in> set s" "\<not> isSpace x" by blast
  then have "dropWhile isSpace (s @ [c]) = dropWhile isSpace s @ [c]"
    by (rule dropWhile_append1)
  with \<open>isSpace c\<close> show ?thesis by (simp add: TrimSpace_def)
qed

lemma TrimSpace_ident:
  assumes "s \<noteq> []" "\<not> isSpace (hd s)" "\<not> isSpace (last s)"
  shows "TrimSpace s = s"
proof -
  from assms have "dropWhile isSpace s = s" by (cases s) auto
  moreover from assms have "dropWhile isSpace (rev s) = rev s"
    by (cases "rev s") (auto simp: last_rev [symmetric] hd_rev)
  ultimately show ?thesis by (simp add: TrimSpace_def)
qed

text \<open>
  Runs of the loop. Outside the block a text without \<open>*\<close> is appended to the buffer as
  it is; inside the block so is a line without \<open>*\<close>, and a text of several lines when
  the buffer has no \<open>:\<close> and no line is empty. (The loop never sets \<open>r0\<close> to \<open>*\<close> on
  such text, so no \<open>/\<close> closes the block.)
\<close>

lemma loop_outside:
  "star \<notin> set xs \<Longrightarrow> r0 \<noteq> star \<Longrightarrow>
   unmarshalLoop e (xs @ rest) buf r0 False rv
     = unmarshalLoop e rest (buf @ xs) (last (r0 # xs)) False rv"
  by (induction xs arbitrary: buf r0) auto

lemma loop_inside_line:
  "star \<notin> set xs \<Longrightarrow> LF \<notin> set xs \<Longrightarrow> r0 \<noteq> star \<Longrightarrow>
   unmarshalLoop e (xs @ rest) buf r0 True rv
     = unmarshalLoop e rest (buf @ xs) (last (r0 # xs)) True rv"
  by (induction xs arbitrary: buf r0) auto

lemma loop_inside_text:
  "star \<notin> set xs \<Longrightarrow> colon \<notin> set buf \<Longrightarrow> colon \<notin> set xs \<Longrightarrow> \<not> doubleLF (r0 # xs) \<Longrightarrow>
   r0 \<noteq> star \<Longrightarrow>
   unmarshalLoop e (xs @ rest) buf r0 True rv
     = unmarshalLoop e rest (buf @ xs) (last (r0 # xs)) True rv"
  by (induction xs arbitrary: buf r0) (auto simp: indexOf_notin)

text \<open>Single steps: the opening and the closing of the block, and a line feed inside
  the block on a buffer without \<open>:\<close>, on a \<open>Revision:\<close> line and on an \<open>Author:\<close> line.\<close>

lemma step_open:
  "unmarshalLoop e (star # rs) buf slash inB rv = unmarshalLoop e rs buf slash True rv"
  by simp

lemma step_close:
  "r0 \<noteq> slash \<Longrightarrow>
   unmarshalLoop e (star # slash # rs) buf r0 inB rv
     = unmarshalLoop e rs [] star False (rv\<lparr>Comment := TrimSpace buf\<rparr>)"
  by simp

lemma step_LF_plain:
  "r0 \<noteq> LF \<Longrightarrow> colon \<notin> set buf \<Longrightarrow>
   unmarshalLoop e (LF # rs) buf r0 True rv = unmarshalLoop e rs (buf @ [LF]) LF True rv"
  by (simp add: indexOf_notin)

lemma step_LF_Revision:
  assumes "r0 \<noteq> LF" "colon \<notin> set a"
  shows "unmarshalLoop e (LF # rs) (a @ runes ''Revision'' @ colon # v) r0 True rv
     = unmarshalLoop e rs [] r0 True (rv\<lparr>ID := TrimSpace v\<rparr>)"
proof -
  let ?buf = "a @ runes ''Revision'' @ colon # v"
  have pos: "indexOf colon ?buf = int (length a) + 8"
    using indexOf_first [of colon "a @ runes ''Revision''" v] assms(2) by simp
  have s6: "slice ?buf (indexOf colon ?buf - 6) (indexOf colon ?buf) = Some (runes ''vision'')"
    unfolding pos by (simp add: slice_def nat_add_distrib)
  have s8: "slice ?buf (indexOf colon ?buf - 8) (indexOf colon ?buf) = Some (runes ''Revision'')"
    unfolding pos by (simp add: slice_def)
  have sv: "slice ?buf (indexOf colon ?buf + 1) (int (length ?buf)) = Some v"
    unfolding pos by (simp add: slice_def nat_add_distrib)
  have "unmarshalLoop e (LF # rs) ?buf r0 True rv
     = unmarshalLoop e rs [] r0 True (rv\<lparr>ID := TrimSpace v\<rparr>)"
    apply (subst unmarshalLoop.simps)
    apply (simp only: Let_def s6 s8 sv)
    using assms(1) pos apply simp
    done
  then show ?thesis .
qed

lemma step_LF_Author:
  assumes "r0 \<noteq> LF" "colon \<notin> set a"
  shows "unmarshalLoop e (LF # rs) (a @ runes ''Author'' @ colon # v) r0 True rv
     = unmarshalLoop e rs [] r0 True (rv\<lparr>Author := TrimSpace v\<rparr>)"
proof -
  let ?buf = "a @ runes ''Author'' @ colon # v"
  have pos: "indexOf colon ?buf = int (length a) + 6"
    using indexOf_first [of colon "a @ runes ''Author''" v] assms(2) by simp
  have s6: "slice ?buf (indexOf colon ?buf - 6) (indexOf colon ?buf) = Some (runes ''Author'')"
    unfolding pos by (simp add: slice_def)
  have sv: "slice ?buf (indexOf colon ?buf + 1) (int (length ?buf)) = Some v"
    unfolding pos by (simp add: slice_def nat_add_distrib)
  have "unmarshalLoop e (LF # rs) ?buf r0 True rv
     = unmarshalLoop e rs [] r0 True (rv\<lparr>Author := TrimSpace v\<rparr>)"
    apply (subst unmarshalLoop.simps)
    apply (simp only: Let_def s6 sv)
    using assms(1) pos apply simp
    done
  then show ?thesis .
qed

lemma step_plain:
  "r \<noteq> star \<Longrightarrow> r \<noteq> slash \<Longrightarrow>
   unmarshalLoop e (r # rs) buf r0 False rv = unmarshalLoop e rs (buf @ [r]) r False rv"
  by simp

lemma loop_end:
  "unmarshalLoop None [] buf r0 inB rv = Returns (Inr (rv\<lparr>SQL := TrimSpace buf\<rparr>))"
  by simp

declare unmarshalLoop.simps [simp del]

text \<open>An identifier that parses is made of digits, with at most a fraction of a second
  behind them: it has no line feed, no \<open>*\<close> and no white space.\<close>

lemma getnum_fixed:
  "getnum v True = Some (n, v') \<Longrightarrow> \<exists>a b. v = a # b # v' \<and> isDigit a \<and> isDigit b"
  by (cases v; cases "tl v") (auto split: if_splits)

lemma getnum_free:
  "getnum v False = Some (n, v') \<Longrightarrow>
   (\<exists>a b. v = a # b # v' \<and> isDigit a \<and> isDigit b) \<or>
   (\<exists>a. v = a # v' \<and> isDigit a \<and> (v' = [] \<or> \<not> isDigit (hd v')))"
  by (cases v; cases "tl v") (auto split: if_splits)

lemma skipFraction_Nil:
  assumes "skipFraction v = []"
  shows "v = [] \<or> (list_all (\<lambda>c. isDigit c \<or> commaOrPeriod c) v \<and> isDigit (last v))"
proof (cases v)
  case Nil
  then show ?thesis by simp
next
  case (Cons a w)
  show ?thesis
  proof (cases w)
    case Nil
    with Cons assms show ?thesis by (simp add: skipFraction_def)
  next
    case (Cons b u)
    with \<open>v = a # w\<close> assms have "commaOrPeriod a \<and> isDigit b \<and> (\<forall>x \<in> set u. isDigit x)"
      by (simp add: skipFraction_def dropWhile_eq_Nil_conv split: if_splits)
    with Cons \<open>v = a # w\<close> show ?thesis by (auto simp: list_all_iff)
  qed
qed

lemma parseRevisionId_shape:
  assumes "parseRevisionId s = Some t"
  shows "s \<noteq> [] \<and> isDigit (hd s) \<and> isDigit (last s) \<and>
         (\<forall>c \<in> set s. isDigit c \<or> commaOrPeriod c)"
proof -
  from assms have len: "4 \<le> length s" and y: "list_all isDigit (take 4 s)"
    by (auto simp: parseRevisionId_def split: if_splits)
  from assms obtain mo v2 d v3 h v4 mi v5 sc v6 where
    g1: "getnum (drop 4 s) True = Some (mo, v2)" and
    g2: "getnum v2 True = Some (d, v3)" and
    g3: "getnum v3 False = Some (h, v4)" and
    g4: "getnum v4 True = Some (mi, v5)" and
    g5: "getnum v5 True = Some (sc, v6)" and
    fr: "skipFraction v6 = []"
    by (auto simp: parseRevisionId_def Let_def split: if_splits option.splits)
  from g1 obtain a1 b1 where d1: "drop 4 s = a1 # b1 # v2" "isDigit a1" "isDigit b1"
    by (blast dest: getnum_fixed)
  from g2 obtain a2 b2 where d2: "v2 = a2 # b2 # v3" "isDigit a2" "isDigit b2"
    by (blast dest: getnum_fixed)
  from g4 obtain a4 b4 where d4: "v4 = a4 # b4 # v5" "isDigit a4" "isDigit b4"
    by (blast dest: getnum_fixed)
  from g5 obtain a5 b5 where d5: "v5 = a5 # b5 # v6" "isDigit a5" "isDigit b5"
    by (blast dest: getnum_fixed)
  from g3 d4 obtain a3 b3 where d3: "v3 = a3 # b3 # v4" "isDigit a3" "isDigit b3"
    by (auto dest!: getnum_free)
  have s: "s = take 4 s @ [a1, b1, a2, b2, a3, b3, a4, b4, a5, b5] @ v6"
    using d1 d2 d3 d4 d5 append_take_drop_id [of 4 s] by simp
  from len obtain c0 cs where t4: "take 4 s = c0 # cs" by (cases "take 4 s") auto
  from fr have v6: "v6 = [] \<or> (list_all (\<lambda>c. isDigit c \<or> commaOrPeriod c) v6 \<and> isDigit (last v6))"
    by (rule skipFraction_Nil)
  have "s \<noteq> []" using len by auto
  moreover have "isDigit (hd s)" using y t4 by (subst s) simp
  moreover have "isDigit (last s)" using v6 d5 by (subst s) auto
  moreover have "\<forall>c \<in> set s. isDigit c \<or> commaOrPeriod c"
    using y v6 d1 d2 d3 d4 d5 by (subst s) (auto simp: list_all_iff)
  ultimately show ?thesis by simp
qed

lemma valid_ID_facts:
  assumes "parseRevisionId s = Some t"
  shows "s \<noteq> []" "LF \<notin> set s" "star \<notin> set s" "TrimSpace s = s"
proof -
  from parseRevisionId_shape [OF assms]
  have a: "s \<noteq> []" and b: "isDigit (hd s)" and c: "isDigit (last s)"
    and d: "\<forall>c \<in> set s. isDigit c \<or> commaOrPeriod c" by simp_all
  show "s \<noteq> []" by (rule a)
  show "LF \<notin> set s" using d by (auto simp: isDigit_def commaOrPeriod_def)
  show "star \<notin> set s" using d by (auto simp: isDigit_def commaOrPeriod_def)
  show "TrimSpace s = s" using a b c
    by (intro TrimSpace_ident) (auto simp: isDigit_def isSpace_def)
qed

text \<open>
  Decoding a stream made of a text \<open>pre\<close>, the metadata block of a revision and a text
  \<open>post\<close>.
\<close>

lemma last_in: "xs \<noteq> [] \<Longrightarrow> c \<notin> set xs \<Longrightarrow> last xs \<noteq> c"
  by (metis last_in_set)

lemma String_header: "String r = header r @ [LF, LF] @ SQL r"
  by (simp add: String_def header_def)

lemma loop_after_close:
  assumes "star \<notin> set post" "post = [] \<or> hd post \<noteq> slash"
  shows "unmarshalLoop None post [] star False rv = Returns (Inr (rv\<lparr>SQL := TrimSpace post\<rparr>))"
proof (cases post)
  case Nil
  then show ?thesis by (simp add: loop_end)
next
  case (Cons p ps)
  with assms have p: "p \<noteq> star" "p \<noteq> slash" "star \<notin> set ps" by auto
  have "unmarshalLoop None (p # ps) [] star False rv = unmarshalLoop None ps [p] p False rv"
    using step_plain [of p None ps "[]" star rv] p by simp
  also have "\<dots> = unmarshalLoop None [] ([p] @ ps) (last (p # ps)) False rv"
    using loop_outside [of ps p None "[]" "[p]" rv] p by simp
  also have "\<dots> = Returns (Inr (rv\<lparr>SQL := TrimSpace (p # ps)\<rparr>))"
    by (simp add: loop_end)
  finally show ?thesis using Cons by simp
qed

text \<open>Whatever the loop has read when it meets \<open>*/\<close> (not right after a \<open>/\<close>): the
  buffer becomes the comment, and the text behind, trimmed, becomes the SQL.\<close>

lemma close_decides_SQL:
  assumes "star \<notin> set post" "post = [] \<or> hd post \<noteq> slash" "r0 \<noteq> slash"
  shows "unmarshalLoop None (runes ''*/'' @ post) buf r0 inB rv
           = Returns (Inr (rv\<lparr>Comment := TrimSpace buf, SQL := TrimSpace post\<rparr>))"
  using step_close [OF assms(3), of None post buf inB rv]
    loop_after_close [OF assms(1,2), of "rv\<lparr>Comment := TrimSpace buf\<rparr>"]
  by simp

lemma decode_prefixed:
  assumes id: "parseRevisionId (ID r) \<noteq> None"
    and au: "LF \<notin> set (Author r)" "star \<notin> set (Author r)" "TrimSpace (Author r) = Author r"
            "Comment r \<noteq> [] \<or> Author r = [] \<or> last (Author r) \<noteq> slash"
    and co: "star \<notin> set (Comment r)" "colon \<notin> set (Comment r)"
            "Comment r = [] \<or> \<not> doubleLF ([LF] @ Comment r @ [LF])"
    and post: "star \<notin> set post" "post = [] \<or> hd post \<noteq> slash"
    and pre: "star \<notin> set pre" "colon \<notin> set pre"
  shows "UnmarshalRevision (pre @ header r @ post)
           = Returns (Inr \<lparr>ID = ID r, Author = Author r, Comment = TrimSpace (Comment r),
                            SQL = TrimSpace post, PerformedAt = None\<rparr>)"
proof -
  from id obtain t where t: "parseRevisionId (ID r) = Some t" by auto
  note idf = valid_ID_facts [OF t]
  let ?T2 = "(if Comment r \<noteq> [] then [LF] @ Comment r @ [LF] else []) @ runes ''*/'' @ post"
  let ?T1 = "runes ''Author:   '' @ Author r @ [LF] @ ?T2"
  let ?T0 = "runes ''Revision: '' @ ID r @ [LF] @ ?T1"
  let ?rv1 = "zeroRevision\<lparr>ID := ID r\<rparr>"
  let ?rv2 = "?rv1\<lparr>Author := Author r\<rparr>"
  let ?rv3 = "?rv2\<lparr>Comment := TrimSpace (Comment r)\<rparr>"
  let ?d = "last (ID r)"
  let ?a = "last (runes ''Author:   '' @ Author r)"
  have d: "?d \<noteq> LF" "?d \<noteq> star"
    using idf by (auto simp: last_in)
  have a: "?a \<noteq> LF" "?a \<noteq> star" "Comment r = [] \<Longrightarrow> ?a \<noteq> slash"
    using au by (auto simp: last_in)
  have s1: "unmarshalLoop None (pre @ header r @ post) [] 0 False zeroRevision
          = unmarshalLoop None (star # LF # ?T0) (pre @ [slash]) slash False zeroRevision"
    using loop_outside [of "pre @ [slash]" 0 None "star # LF # ?T0" "[]" zeroRevision] pre
    by (simp add: header_def)
  have s2: "unmarshalLoop None (star # LF # ?T0) (pre @ [slash]) slash False zeroRevision
          = unmarshalLoop None (LF # ?T0) (pre @ [slash]) slash True zeroRevision"
    by (rule step_open)
  have s3: "unmarshalLoop None (LF # ?T0) (pre @ [slash]) slash True zeroRevision
          = unmarshalLoop None ?T0 (pre @ [slash, LF]) LF True zeroRevision"
    using step_LF_plain [of slash "pre @ [slash]" None ?T0 zeroRevision] pre by simp
  have s4: "unmarshalLoop None ?T0 (pre @ [slash, LF]) LF True zeroRevision
          = unmarshalLoop None (LF # ?T1) (pre @ [slash, LF] @ runes ''Revision: '' @ ID r) ?d
              True zeroRevision"
    using loop_inside_line [of "runes ''Revision: '' @ ID r" LF None "LF # ?T1"
        "pre @ [slash, LF]" zeroRevision] idf
    by simp
  have s5: "unmarshalLoop None (LF # ?T1) (pre @ [slash, LF] @ runes ''Revision: '' @ ID r) ?d
              True zeroRevision
          = unmarshalLoop None ?T1 [] ?d True ?rv1"
    using step_LF_Revision [of ?d "pre @ [slash, LF]" None ?T1 "32 # ID r" zeroRevision]
      d pre idf
    by (simp add: TrimSpace_Cons isSpace_def)
  have s6: "unmarshalLoop None ?T1 [] ?d True ?rv1
          = unmarshalLoop None (LF # ?T2) (runes ''Author:   '' @ Author r) ?a True ?rv1"
    using loop_inside_line [of "runes ''Author:   '' @ Author r" ?d None "LF # ?T2" "[]" ?rv1]
      d au
    by simp
  have s7: "unmarshalLoop None (LF # ?T2) (runes ''Author:   '' @ Author r) ?a True ?rv1
          = unmarshalLoop None ?T2 [] ?a True ?rv2"
    using step_LF_Author [of ?a "[]" None ?T2 "runes ''   '' @ Author r" ?rv1] a au
    by (simp add: TrimSpace_Cons isSpace_def)
  have s8: "unmarshalLoop None ?T2 [] ?a True ?rv2
          = unmarshalLoop None post [] star False ?rv3"
  proof (cases "Comment r = []")
    case True
    then show ?thesis
      using step_close [of ?a None post "[]" True ?rv2] a
      by (simp add: TrimSpace_def)
  next
    case False
    let ?C = "runes ''*/'' @ post"
    have c1: "unmarshalLoop None ?T2 [] ?a True ?rv2
            = unmarshalLoop None (Comment r @ [LF] @ ?C) [LF] LF True ?rv2"
      using step_LF_plain [of ?a "[]" None "Comment r @ [LF] @ ?C" ?rv2] a False by simp
    have c2: "unmarshalLoop None (Comment r @ [LF] @ ?C) [LF] LF True ?rv2
            = unmarshalLoop None ?C ([LF] @ Comment r @ [LF]) LF True ?rv2"
      using loop_inside_text [of "Comment r @ [LF]" "[LF]" LF None ?C ?rv2] co False
      by simp
    have c3: "unmarshalLoop None ?C ([LF] @ Comment r @ [LF]) LF True ?rv2
            = unmarshalLoop None post [] star False
                (?rv2\<lparr>Comment := TrimSpace ([LF] @ Comment r @ [LF])\<rparr>)"
      using step_close [of LF None post "[LF] @ Comment r @ [LF]" True ?rv2] by simp
    have "TrimSpace ([LF] @ Comment r @ [LF]) = TrimSpace (Comment r)"
      using TrimSpace_snoc [of LF "LF # Comment r"] TrimSpace_Cons [of LF "Comment r"]
      by (simp add: isSpace_def)
    with c1 c2 c3 show ?thesis by simp
  qed
  have s9: "unmarshalLoop None post [] star False ?rv3
          = Returns (Inr (?rv3\<lparr>SQL := TrimSpace post\<rparr>))"
    using post by (rule loop_after_close)
  have "unmarshalLoop None (pre @ header r @ post) [] 0 False zeroRevision
          = Returns (Inr (?rv3\<lparr>SQL := TrimSpace post\<rparr>))"
    by (simp only: s1 s2 s3 s4 s5 s6 s7 s8 s9)
  then show ?thesis
    using t by (simp add: UnmarshalRevision_def UnmarshalReader_def zeroRevision_def)
qed

text \<open>
  Claim C2, amended. Let \<open>r\<close> be a revision whose fields are text (valid UTF-8, as
  every string of this model is) and whose identifier parses; whose author has
  no line feed, no \<open>*\<close> and no white space at its ends, and does not end in \<open>/\<close> when the
  comment is empty; whose comment has no \<open>*\<close>, no \<open>:\<close> and no empty line (it does not
  begin or end with a line feed and has no two line feeds in a row); and whose SQL has
  no \<open>*\<close>. Then decoding \<open>r.String()\<close> succeeds and returns the identifier and the
  author of \<open>r\<close>, and the comment and the SQL of \<open>r\<close> trimmed of white space.
\<close>

theorem String_round_trip:
  assumes "parseRevisionId (ID r) \<noteq> None"
    and "LF \<notin> set (Author r)" and "star \<notin> set (Author r)"
    and "TrimSpace (Author r) = Author r"
    and "Comment r \<noteq> [] \<or> Author r = [] \<or> last (Author r) \<noteq> slash"
    and "star \<notin> set (Comment r)" and "colon \<notin> set (Comment r)"
    and "Comment r = [] \<or> \<not> doubleLF ([LF] @ Comment r @ [LF])"
    and "star \<notin> set (SQL r)"
  shows "UnmarshalRevision (String r)
           = Returns (Inr \<lparr>ID = ID r, Author = Author r, Comment = TrimSpace (Comment r),
                            SQL = TrimSpace (SQL r), PerformedAt = None\<rparr>)"
proof -
  have "TrimSpace ([LF, LF] @ SQL r) = TrimSpace (SQL r)"
    by (simp add: TrimSpace_Cons isSpace_def)
  then show ?thesis
    using decode_prefixed [of r "[LF, LF] @ SQL r" "[]"] assms
    by (simp add: String_header)
qed

theorem String_round_trip_witness:
  "parseRevisionId (ID scenario1) \<noteq> None \<and>
   LF \<notin> set (Author scenario1) \<and> star \<notin> set (Author scenario1) \<and>
   TrimSpace (Author scenario1) = Author scenario1 \<and>
   Comment scenario1 \<noteq> [] \<and>
   star \<notin> set (Comment scenario1) \<and> colon \<notin> set (Comment scenario1) \<and>
   \<not> doubleLF ([LF] @ Comment scenario1 @ [LF]) \<and>
   star \<notin> set (SQL scenario1) \<and>
   UnmarshalRevision (String scenario1)
     = Returns (Inr (scenario1\<lparr>SQL := runes ''CREATE TABLE t(id INT);''\<rparr>))"
  using String_round_trip [of scenario1]
  by (simp add: scenario1_def parse_defs TrimSpace_def isSpace_def)

text \<open>
  Claim C2, as stated, fails for a comment of two paragraphs: the empty line between
  them resets the buffer, and only the last paragraph is decoded. Trimming leaves the
  comment as it is, so the decoded comment is not the comment up to trimming.
\<close>

theorem String_round_trip_counterexample:
  "parseRevisionId (ID twoParagraphs) \<noteq> None \<and>
   TrimSpace (Comment twoParagraphs) = runes ''a'' @ [LF, LF] @ runes ''b'' \<and>
   TrimSpace (SQL twoParagraphs) = SQL twoParagraphs \<and>
   UnmarshalRevision (String twoParagraphs)
     = Returns (Inr (twoParagraphs\<lparr>Comment := runes ''b''\<rparr>))"
  by (simp add: twoParagraphs_def String_def UnmarshalRevision_def UnmarshalReader_def
      unmarshalLoop.simps zeroRevision_def slice_def parse_defs TrimSpace_def isSpace_def)

text \<open>
  Claim C8, amended. Let the stream be valid UTF-8, made of a text \<open>pre\<close> without \<open>*\<close> and \<open>:\<close>, then the
  metadata block of a revision \<open>r\<close> as in claim C2, then a text \<open>post\<close> without \<open>*\<close> that
  does not begin with \<open>/\<close>. Then the stream is accepted, the text after the closing \<open>*/\<close>
  is the decoded SQL (trimmed), and the text before the opening \<open>/*\<close> is neither in the
  SQL nor in the comment: it is still in the buffer when the \<open>Revision:\<close> line is read,
  and is dropped with it. (For the text after the block see also \<open>close_decides_SQL\<close>.)
\<close>

theorem bytes_before_block_dropped:
  assumes "parseRevisionId (ID r) \<noteq> None"
    and "LF \<notin> set (Author r)" and "star \<notin> set (Author r)"
    and "TrimSpace (Author r) = Author r"
    and "Comment r \<noteq> [] \<or> Author r = [] \<or> last (Author r) \<noteq> slash"
    and "star \<notin> set (Comment r)" and "colon \<notin> set (Comment r)"
    and "Comment r = [] \<or> \<not> doubleLF ([LF] @ Comment r @ [LF])"
    and "star \<notin> set post" and "post = [] \<or> hd post \<noteq> slash"
    and "star \<notin> set pre" and "colon \<notin> set pre"
  shows "UnmarshalRevision (pre @ header r @ post)
           = Returns (Inr \<lparr>ID = ID r, Author = Author r, Comment = TrimSpace (Comment r),
                            SQL = TrimSpace post, PerformedAt = None\<rparr>)"
  using assms by (rule decode_prefixed)

theorem bytes_before_block_dropped_witness:
  "parseRevisionId (ID scenario1) \<noteq> None \<and>
   LF \<notin> set (Author scenario1) \<and> star \<notin> set (Author scenario1) \<and>
   TrimSpace (Author scenario1) = Author scenario1 \<and>
   Comment scenario1 \<noteq> [] \<and>
   star \<notin> set (Comment scenario1) \<and> colon \<notin> set (Comment scenario1) \<and>
   \<not> doubleLF ([LF] @ Comment scenario1 @ [LF]) \<and>
   star \<notin> set (runes '' DROP TABLE u; '') \<and> hd (runes '' DROP TABLE u; '') \<noteq> slash \<and>
   star \<notin> set (runes ''SELECT 1;'') \<and> colon \<notin> set (runes ''SELECT 1;'') \<and>
   UnmarshalRevision (runes ''SELECT 1;'' @ header scenario1 @ runes '' DROP TABLE u; '')
     = Returns (Inr (scenario1\<lparr>SQL := runes ''DROP TABLE u;''\<rparr>))"
  using bytes_before_block_dropped [of scenario1 "runes '' DROP TABLE u; ''" "runes ''SELECT 1;''"]
  by (simp add: scenario1_def parse_defs TrimSpace_def isSpace_def)

text \<open>
  Claim C8, as stated, fails when a statement stands before the block: the stream is
  accepted, and the decoded SQL is the text after the block alone.
\<close>

theorem bytes_before_block_counterexample:
  "UnmarshalRevision (runes ''SELECT 1;'' @ [LF] @ String scenario1)
     = Returns (Inr (scenario1\<lparr>SQL := runes ''CREATE TABLE t(id INT);''\<rparr>))"
  by (simp add: scenario1_def String_def UnmarshalRevision_def UnmarshalReader_def
      unmarshalLoop.simps zeroRevision_def slice_def parse_defs TrimSpace_def isSpace_def)

text \<open>
  What the conditions of the two amended claims keep out. The rune after a \<open>*\<close> is lost
  (the look-ahead puts it back only when it is \<open>/\<close>), and a \<open>*\<close> at the end is lost
  itself; a \<open>:\<close> in the comment makes the look-back panic or takes the line for a
  header line; the author is trimmed; a comment that ends with a line feed is lost;
  an author that ends in \<open>/\<close> opens the block again when no comment follows; a \<open>:\<close>
  before the block makes the look-back panic; a \<open>/\<close> right after the block closes it
  once more and is lost.
\<close>

lemmas decode_eval =
  String_def header_def UnmarshalRevision_def UnmarshalReader_def unmarshalLoop.simps
  zeroRevision_def slice_def parse_defs TrimSpace_def isSpace_def scenario1_def

lemma star_in_SQL:
  "UnmarshalRevision (String (scenario1\<lparr>SQL := runes ''SELECT * FROM t''\<rparr>))
     = Returns (Inr (scenario1\<lparr>SQL := runes ''SELECT *FROM t''\<rparr>))"
  by (simp add: decode_eval)

lemma star_at_end_of_SQL:
  "UnmarshalRevision (String (scenario1\<lparr>SQL := runes ''SELECT *''\<rparr>))
     = Returns (Inr (scenario1\<lparr>SQL := runes ''SELECT''\<rparr>))"
  by (simp add: decode_eval)

lemma colon_in_Comment:
  "UnmarshalRevision (String (scenario1\<lparr>Comment := runes ''a:b''\<rparr>))
     = Panics SliceBoundsOutOfRange"
  by (simp add: decode_eval)

lemma keyword_in_Comment:
  "UnmarshalRevision (String (scenario1\<lparr>Comment := runes ''see Author: x'', SQL := []\<rparr>))
     = Returns (Inr (scenario1\<lparr>Author := runes ''x'', Comment := [], SQL := []\<rparr>))"
  by (simp add: decode_eval)

lemma blank_before_Author:
  "UnmarshalRevision (String (scenario1\<lparr>Author := runes '' A'', SQL := []\<rparr>))
     = Returns (Inr (scenario1\<lparr>Author := runes ''A'', SQL := []\<rparr>))"
  by (simp add: decode_eval)

lemma line_feed_after_Comment:
  "UnmarshalRevision (String (scenario1\<lparr>Comment := runes ''a'' @ [LF], SQL := []\<rparr>))
     = Returns (Inr (scenario1\<lparr>Comment := [], SQL := []\<rparr>))"
  by (simp add: decode_eval)

lemma slash_after_Author:
  "UnmarshalRevision
     (String (scenario1\<lparr>Author := runes ''a/'', Comment := [],
                          SQL := runes ''x:y'' @ [LF] @ runes ''z''\<rparr>))
     = Panics SliceBoundsOutOfRange"
  by (simp add: decode_eval)

lemma colon_before_block:
  "UnmarshalRevision (runes ''a:b'' @ String scenario1) = Panics SliceBoundsOutOfRange"
  by (simp add: decode_eval)

lemma slash_after_block:
  "UnmarshalRevision (header scenario1 @ runes ''/x'')
     = Returns (Inr (scenario1\<lparr>Comment := [], SQL := runes ''x''\<rparr>))"
  by (simp add: decode_eval)

text \<open>
  Claim C5 at every input that begins with \<open>/*\<close>, a line feed, \<open>A:\<close> and a line feed:
  at the second line feed the buffer is \<open>/\<close>, line feed, \<open>A:\<close>; its first \<open>:\<close> stands at
  index 3, and \<open>buf[pos-6:pos]\<close> panics.
\<close>

theorem UnmarshalRevision_short_line:
  "UnmarshalRevision (runes ''/*'' @ [LF] @ runes ''A:'' @ [LF] @ rest)
     = Panics SliceBoundsOutOfRange"
  by (simp add: UnmarshalRevision_def UnmarshalReader_def unmarshalLoop.simps slice_def)

end
